theory Spec2Isabelle
  imports Complex_Main "HOL-Library.Word"
begin

section \<open>The host language: strings, numbers and structured text\<close>

text \<open>
  The program is JavaScript. Its strings are modelled as \<open>string\<close> (code units below 256),
  its numbers as exact decimal numbers \<open>m * 10 ^ e\<close> together with the two infinities
  (binary rounding and overflow of doubles are not modelled; NaN is the absent result of a
  conversion), and the values it passes around as finite trees.
\<close>

subsection \<open>Code units\<close>

definition backslash :: char where
  "backslash = CHR 0x5C"

definition dquote :: char where
  "dquote = CHR 0x22"

definition colon :: char where
  "colon = CHR 0x3A"

definition is_digit :: "char \<Rightarrow> bool" where
  "is_digit c = (c \<in> set ''0123456789'')"

definition is_hex_digit :: "char \<Rightarrow> bool" where
  "is_hex_digit c = (c \<in> set ''0123456789abcdefABCDEF'')"

text \<open>WhiteSpace and LineTerminator of ECMAScript, as far as they lie below 256:
  TAB, LF, VT, FF, CR, SP and NBSP.\<close>

definition is_ws :: "char \<Rightarrow> bool" where
  "is_ws c = (c \<in> set [CHR 0x09, CHR 0x0A, CHR 0x0B, CHR 0x0C, CHR 0x0D, CHR 0x20, CHR 0xA0])"

definition digit_val :: "char \<Rightarrow> int" where
  "digit_val c =
     (if is_digit c then of_char c - 48
      else if c \<in> set ''abcdef'' then of_char c - 87
      else if c \<in> set ''ABCDEF'' then of_char c - 55
      else 0)"

definition digits_val :: "int \<Rightarrow> string \<Rightarrow> int" where
  "digits_val b ds = foldl (\<lambda>acc c. acc * b + digit_val c) 0 ds"

definition digit_char :: "int \<Rightarrow> char" where
  "digit_char d = ''0123456789abcdefghijklmnopqrstuvwxyz'' ! nat d"

text \<open>The digits of a non-negative integer in radix \<open>b\<close>, most significant first.\<close>

function radix_digits :: "int \<Rightarrow> int \<Rightarrow> string" where
  "radix_digits b n =
     (if n < b \<or> b < 2 then [digit_char n]
      else radix_digits b (n div b) @ [digit_char (n mod b)])"
  by pat_completeness auto
termination
proof (relation "measure (\<lambda>(b, n). nat n)")
  show "wf (measure (\<lambda>(b, n). nat n))" by simp
next
  fix b n :: int
  assume "\<not> (n < b \<or> b < 2)"
  then have b: "2 \<le> b" and n: "b \<le> n" by auto
  have "n div b < n"
    using b n by (intro int_div_less_self) auto
  moreover have "0 < n" using b n by linarith
  ultimately show "((b, n div b), (b, n)) \<in> measure (\<lambda>(b, n). nat n)"
    by simp
qed

subsection \<open>String.prototype.trim, split, replace and Array.prototype.join\<close>

definition js_trim :: "string \<Rightarrow> string" where
  "js_trim s = rev (dropWhile is_ws (rev (dropWhile is_ws s)))"

definition SEPARATOR :: string where
  "SEPARATOR = [colon, colon]"

definition CURRENT_VERSION :: string where
  "CURRENT_VERSION = ''1.1''"

definition MAX_CONTEXT_DEPTH :: nat where
  "MAX_CONTEXT_DEPTH = 10"

text \<open>\<open>s.split('::')\<close>: the input is scanned from the left, each occurrence of the
  separator ends a field and the scan goes on behind it.\<close>

fun split_sep :: "string \<Rightarrow> string list" where
  "split_sep (c # d # cs) =
     (if c = colon \<and> d = colon then [] # split_sep cs
      else (case split_sep (d # cs) of [] \<Rightarrow> [[c]] | p # ps \<Rightarrow> (c # p) # ps))"
| "split_sep cs = [cs]"

text \<open>\<open>s.replace(new RegExp('::', 'g'), '\\:')\<close>: every match from the left, without
  overlap, becomes backslash colon.\<close>

fun escape_sep :: "string \<Rightarrow> string" where
  "escape_sep (c # d # cs) =
     (if c = colon \<and> d = colon then backslash # colon # escape_sep cs
      else c # escape_sep (d # cs))"
| "escape_sep cs = cs"

text \<open>\<open>s.replace(/\\:/g, '::')\<close>: every backslash colon becomes the separator.\<close>

fun unescape_sep :: "string \<Rightarrow> string" where
  "unescape_sep (c # d # cs) =
     (if c = backslash \<and> d = colon then colon # colon # unescape_sep cs
      else c # unescape_sep (d # cs))"
| "unescape_sep cs = cs"

fun join_with :: "string \<Rightarrow> string list \<Rightarrow> string" where
  "join_with sep [] = []"
| "join_with sep [p] = p"
| "join_with sep (p # q # ps) = p @ sep @ join_with sep (q # ps)"

subsection \<open>Numbers and their conversions\<close>

text \<open>\<open>Fin m e\<close> is the number \<open>m * 10 ^ e\<close>. The conversions below return it in normal
  form: \<open>m\<close> has no trailing zero, and zero is \<open>Fin 0 0\<close>.\<close>

datatype jsnum = Fin int int | PosInf | NegInf

function norm_dec :: "int \<Rightarrow> int \<Rightarrow> jsnum" where
  "norm_dec m e =
     (if m = 0 then Fin 0 0
      else if m mod 10 = 0 then norm_dec (m div 10) (e + 1)
      else Fin m e)"
  by pat_completeness auto
termination
  by (relation "measure (\<lambda>(m, e). nat \<bar>m\<bar>)") auto

definition num_of_int :: "int \<Rightarrow> jsnum" where
  "num_of_int n = norm_dec n 0"

fun num_neg :: "jsnum \<Rightarrow> jsnum" where
  "num_neg (Fin m e) = Fin (- m) e"
| "num_neg PosInf = NegInf"
| "num_neg NegInf = PosInf"

text \<open>Number::toString in radix 10, for the digits \<open>ds\<close> of the mantissa and the exponent
  \<open>e\<close>: with \<open>k\<close> digits and \<open>n = k + e\<close>, an integer of at most 21 digits is written out,
  a fraction down to \<open>1e-6\<close> is written with a decimal point, and everything else in
  exponent notation.\<close>

definition fmt_dec :: "string \<Rightarrow> int \<Rightarrow> string" where
  "fmt_dec ds e =
     (let k = int (length ds); n = k + e in
      if k \<le> n \<and> n \<le> 21 then ds @ replicate (nat e) (CHR ''0'')
      else if 0 < n \<and> n \<le> 21 then take (nat n) ds @ ''.'' @ drop (nat n) ds
      else if - 6 < n \<and> n \<le> 0 then ''0.'' @ replicate (nat (- n)) (CHR ''0'') @ ds
      else
        (let ex = n - 1;
             es = (if ex < 0 then ''-'' else ''+'') @ radix_digits 10 \<bar>ex\<bar>
         in if k = 1 then ds @ ''e'' @ es
            else take 1 ds @ ''.'' @ drop 1 ds @ ''e'' @ es))"

definition String_num :: "jsnum \<Rightarrow> string" where
  "String_num x =
     (case x of
        PosInf \<Rightarrow> ''Infinity''
      | NegInf \<Rightarrow> ''-Infinity''
      | Fin m e \<Rightarrow>
          (case norm_dec m e of
             Fin m' e' \<Rightarrow>
               (if m' = 0 then ''0''
                else (if m' < 0 then ''-'' else []) @ fmt_dec (radix_digits 10 \<bar>m'\<bar>) e')
           | PosInf \<Rightarrow> ''Infinity''
           | NegInf \<Rightarrow> ''-Infinity''))"

definition String_int :: "int \<Rightarrow> string" where
  "String_int n = String_num (num_of_int n)"

text \<open>The exponent part of a decimal literal: nothing, or \<open>e\<close>, an optional sign and
  digits up to the end.\<close>

definition exponent_part :: "string \<Rightarrow> int option" where
  "exponent_part r =
     (if r = [] then Some 0
      else if hd r \<in> set ''eE'' then
        (let r' = tl r;
             neg = (r' \<noteq> [] \<and> hd r' = CHR ''-'');
             ds = (if r' \<noteq> [] \<and> hd r' \<in> set ''+-'' then tl r' else r')
         in if ds \<noteq> [] \<and> list_all is_digit ds
            then Some ((if neg then - 1 else 1) * digits_val 10 ds)
            else None)
      else None)"

text \<open>StrUnsignedDecimalLiteral: \<open>Infinity\<close>, digits with an optional fraction, or a
  fraction alone, each with an optional exponent.\<close>

definition unsigned_decimal :: "string \<Rightarrow> jsnum option" where
  "unsigned_decimal t =
     (if t = ''Infinity'' then Some PosInf
      else
        (let ip = takeWhile is_digit t;
             r1 = dropWhile is_digit t;
             dot = (r1 \<noteq> [] \<and> hd r1 = CHR ''.'');
             fp = (if dot then takeWhile is_digit (tl r1) else []);
             r2 = (if dot then dropWhile is_digit (tl r1) else r1)
         in if ip = [] \<and> fp = [] then None
            else (case exponent_part r2 of
                    None \<Rightarrow> None
                  | Some ex \<Rightarrow>
                      Some (norm_dec (digits_val 10 (ip @ fp)) (ex - int (length fp))))))"

text \<open>NonDecimalIntegerLiteral: \<open>0x\<close>, \<open>0o\<close> or \<open>0b\<close> and digits of that radix, unsigned.\<close>

definition non_decimal :: "string \<Rightarrow> jsnum option option" where
  "non_decimal t =
     (case t of
        z # x # ds \<Rightarrow>
          (if z = CHR ''0'' \<and> x \<in> set ''xX'' then
             Some (if ds \<noteq> [] \<and> list_all is_hex_digit ds
                   then Some (num_of_int (digits_val 16 ds)) else None)
           else if z = CHR ''0'' \<and> x \<in> set ''oO'' then
             Some (if ds \<noteq> [] \<and> list_all (\<lambda>c. c \<in> set ''01234567'') ds
                   then Some (num_of_int (digits_val 8 ds)) else None)
           else if z = CHR ''0'' \<and> x \<in> set ''bB'' then
             Some (if ds \<noteq> [] \<and> list_all (\<lambda>c. c \<in> set ''01'') ds
                   then Some (num_of_int (digits_val 2 ds)) else None)
           else None)
      | _ \<Rightarrow> None)"

text \<open>\<open>Number(s)\<close> on a string; \<open>None\<close> is NaN. Blank text is zero.\<close>

definition Number_str :: "string \<Rightarrow> jsnum option" where
  "Number_str s =
     (let t = js_trim s in
      if t = [] then Some (Fin 0 0)
      else (case non_decimal t of
              Some r \<Rightarrow> r
            | None \<Rightarrow>
                if hd t = CHR ''-'' then map_option num_neg (unsigned_decimal (tl t))
                else if hd t = CHR ''+'' then unsigned_decimal (tl t)
                else unsigned_decimal t))"

text \<open>\<open>parseInt(s, 10)\<close>: leading white space, an optional sign, and the longest run of
  decimal digits; \<open>None\<close> is NaN.\<close>

definition parseInt10 :: "string \<Rightarrow> int option" where
  "parseInt10 s =
     (let t = dropWhile is_ws s;
          neg = (t \<noteq> [] \<and> hd t = CHR ''-'');
          u = (if t \<noteq> [] \<and> hd t \<in> set ''+-'' then tl t else t);
          ds = takeWhile is_digit u
      in if ds = [] then None
         else Some ((if neg then - 1 else 1) * digits_val 10 ds))"

subsection \<open>Values\<close>

text \<open>The values of the program as finite trees. An object is the list of its own
  enumerable properties in the order in which \<open>Object.keys\<close> lists them; a Date is its
  epoch milliseconds.\<close>

datatype jsval =
    JUndefined
  | JNull
  | JBool bool
  | JNum jsnum
  | JStr string
  | JDate int
  | JArr "jsval list"
  | JObj "(string \<times> jsval) list"

text \<open>\<open>typeof v === 'object'\<close> holds of null, Dates, arrays and objects.\<close>

fun is_object :: "jsval \<Rightarrow> bool" where
  "is_object JNull = True"
| "is_object (JDate t) = True"
| "is_object (JArr xs) = True"
| "is_object (JObj kvs) = True"
| "is_object v = False"

text \<open>An array index is the canonical decimal text of an integer below \<open>2^32 - 1\<close>.
  \<open>Object.keys\<close> lists such keys first, in ascending order, then the other keys in
  the order of their creation. \<open>obj_set\<close> is the assignment \<open>o[k] = v\<close> on that list.\<close>

definition is_array_index :: "string \<Rightarrow> bool" where
  "is_array_index k =
     (k \<noteq> [] \<and> list_all is_digit k \<and> (if hd k = CHR ''0'' then k = ''0'' else True)
      \<and> digits_val 10 k < 4294967295)"

fun obj_set :: "(string \<times> 'v) list \<Rightarrow> string \<Rightarrow> 'v \<Rightarrow> (string \<times> 'v) list" where
  "obj_set [] k v = [(k, v)]"
| "obj_set ((k', v') # kvs) k v =
     (if k' = k then (k, v) # kvs
      else if is_array_index k \<and>
              (if is_array_index k' then digits_val 10 k < digits_val 10 k' else True)
        then (k, v) # (k', v') # kvs
      else (k', v') # obj_set kvs k v)"

subsection \<open>JSON.stringify\<close>

text \<open>QuoteJSONString: the quote, the backslash and the control characters are escaped.\<close>

definition json_quote_char :: "char \<Rightarrow> string" where
  "json_quote_char c =
     (if c = dquote then [backslash, dquote]
      else if c = backslash then [backslash, backslash]
      else if c = CHR 0x08 then [backslash, CHR ''b'']
      else if c = CHR 0x09 then [backslash, CHR ''t'']
      else if c = CHR 0x0A then [backslash, CHR ''n'']
      else if c = CHR 0x0C then [backslash, CHR ''f'']
      else if c = CHR 0x0D then [backslash, CHR ''r'']
      else if (of_char c :: nat) < 32 then
        [backslash, CHR ''u'', CHR ''0'', CHR ''0'',
         digit_char (of_char c div 16), digit_char (of_char c mod 16)]
      else [c])"

definition json_quote :: "string \<Rightarrow> string" where
  "json_quote s = dquote # concat (map json_quote_char s) @ [dquote]"

text \<open>\<open>JSON.stringify(v)\<close>; \<open>None\<close> is the result \<open>undefined\<close>. An undefined element of an
  array is written \<open>null\<close>, an undefined property of an object is left out, a number that is
  not finite is written \<open>null\<close>. The \<open>toJSON\<close> of a Date is not modelled: \<open>encodeValue\<close>
  replaces every Date by the text of its milliseconds before it serialises.\<close>

fun JSON_stringify :: "jsval \<Rightarrow> string option" where
  "JSON_stringify JUndefined = None"
| "JSON_stringify JNull = Some ''null''"
| "JSON_stringify (JBool b) = Some (if b then ''true'' else ''false'')"
| "JSON_stringify (JNum x) = Some (case x of Fin m e \<Rightarrow> String_num x | _ \<Rightarrow> ''null'')"
| "JSON_stringify (JStr s) = Some (json_quote s)"
| "JSON_stringify (JDate t) = None"
| "JSON_stringify (JArr xs) =
     Some (''['' @ join_with '',''
        (map (\<lambda>x. case JSON_stringify x of None \<Rightarrow> ''null'' | Some t \<Rightarrow> t) xs) @ '']'')"
| "JSON_stringify (JObj kvs) =
     Some (''{'' @ join_with '',''
        (concat (map (\<lambda>kv. case JSON_stringify (snd kv) of
                               None \<Rightarrow> []
                             | Some t \<Rightarrow> [json_quote (fst kv) @ '':'' @ t]) kvs)) @ ''}'')"

subsection \<open>JSON.parse\<close>

definition json_ws :: "char \<Rightarrow> bool" where
  "json_ws c = (c \<in> set [CHR 0x20, CHR 0x09, CHR 0x0A, CHR 0x0D])"

definition skip_ws :: "string \<Rightarrow> string" where
  "skip_ws s = dropWhile json_ws s"

text \<open>The text of a JSON string behind its opening quote, up to the closing quote, and
  what follows. An escape \<open>\\uXXXX\<close> of a code unit above 255 is outside the strings of this
  model and is refused.\<close>

function json_string_body :: "string \<Rightarrow> string \<Rightarrow> (string \<times> string) option" where
  "json_string_body acc [] = None"
| "json_string_body acc (c # cs) =
     (if c = dquote then Some (rev acc, cs)
      else if c = backslash then
        (case cs of
           [] \<Rightarrow> None
         | e # r \<Rightarrow>
             if e = dquote \<or> e = backslash \<or> e = CHR ''/'' then json_string_body (e # acc) r
             else if e = CHR ''b'' then json_string_body (CHR 0x08 # acc) r
             else if e = CHR ''f'' then json_string_body (CHR 0x0C # acc) r
             else if e = CHR ''n'' then json_string_body (CHR 0x0A # acc) r
             else if e = CHR ''r'' then json_string_body (CHR 0x0D # acc) r
             else if e = CHR ''t'' then json_string_body (CHR 0x09 # acc) r
             else if e = CHR ''u'' \<and> 4 \<le> length r \<and> list_all is_hex_digit (take 4 r)
                     \<and> digits_val 16 (take 4 r) < 256
               then json_string_body (char_of (digits_val 16 (take 4 r)) # acc) (drop 4 r)
             else None)
      else if (of_char c :: nat) < 32 then None
      else json_string_body (c # acc) cs)"
  by pat_completeness auto
termination
  by (relation "measure (\<lambda>(acc, s). length s)") auto

text \<open>A JSON number: an optional minus, an integer part without a leading zero, an
  optional fraction and an optional exponent.\<close>

definition json_number :: "string \<Rightarrow> (jsnum \<times> string) option" where
  "json_number s =
     (let neg = (s \<noteq> [] \<and> hd s = CHR ''-'');
          u = (if neg then tl s else s);
          ip = takeWhile is_digit u;
          r1 = dropWhile is_digit u;
          dot = (r1 \<noteq> [] \<and> hd r1 = CHR ''.'');
          fp = (if dot then takeWhile is_digit (tl r1) else []);
          r2 = (if dot then dropWhile is_digit (tl r1) else r1);
          ex = (r2 \<noteq> [] \<and> hd r2 \<in> set ''eE'');
          r3 = (if ex then tl r2 else r2);
          eneg = (ex \<and> r3 \<noteq> [] \<and> hd r3 = CHR ''-'');
          r4 = (if ex \<and> r3 \<noteq> [] \<and> hd r3 \<in> set ''+-'' then tl r3 else r3);
          ed = (if ex then takeWhile is_digit r4 else []);
          r5 = (if ex then dropWhile is_digit r4 else r2)
      in if ip = [] \<or> (hd ip = CHR ''0'' \<and> 1 < length ip) \<or> (dot \<and> fp = []) \<or> (ex \<and> ed = [])
         then None
         else Some ((if neg then num_neg else id)
                      (norm_dec (digits_val 10 (ip @ fp))
                         ((if eneg then - 1 else 1) * digits_val 10 ed - int (length fp))),
                    r5))"

text \<open>The recursive descent. Each function returns the value read and the rest of the
  input. A call on the rest of an earlier call is guarded by a comparison of lengths, which
  makes the recursion well-founded on the length of the input.\<close>

function json_value :: "string \<Rightarrow> (jsval \<times> string) option"
  and json_elements :: "jsval list \<Rightarrow> string \<Rightarrow> (jsval \<times> string) option"
  and json_members :: "(string \<times> jsval) list \<Rightarrow> string \<Rightarrow> (jsval \<times> string) option"
where
  "json_value s =
     (case skip_ws s of
        [] \<Rightarrow> None
      | c # cs \<Rightarrow>
          if c = CHR ''['' then
            (case skip_ws cs of
               [] \<Rightarrow> None
             | d # ds \<Rightarrow> if d = CHR '']'' then Some (JArr [], ds) else json_elements [] cs)
          else if c = CHR ''{'' then
            (case skip_ws cs of
               [] \<Rightarrow> None
             | d # ds \<Rightarrow> if d = CHR ''}'' then Some (JObj [], ds) else json_members [] cs)
          else if c = dquote then
            (case json_string_body [] cs of None \<Rightarrow> None | Some (t, r) \<Rightarrow> Some (JStr t, r))
          else if take 4 (c # cs) = ''true'' then Some (JBool True, drop 3 cs)
          else if take 5 (c # cs) = ''false'' then Some (JBool False, drop 4 cs)
          else if take 4 (c # cs) = ''null'' then Some (JNull, drop 3 cs)
          else (case json_number (c # cs) of None \<Rightarrow> None | Some (x, r) \<Rightarrow> Some (JNum x, r)))"
| "json_elements acc s =
     (case json_value s of
        None \<Rightarrow> None
      | Some (v, r) \<Rightarrow>
          (case skip_ws r of
             [] \<Rightarrow> None
           | d # ds \<Rightarrow>
               if d = CHR '','' then
                 (if length ds < length s then json_elements (acc @ [v]) ds else None)
               else if d = CHR '']'' then Some (JArr (acc @ [v]), ds)
               else None))"
| "json_members acc s =
     (case skip_ws s of
        [] \<Rightarrow> None
      | q # qs \<Rightarrow>
          if q \<noteq> dquote then None
          else
            (case json_string_body [] qs of
               None \<Rightarrow> None
             | Some (k, r) \<Rightarrow>
                 (case skip_ws r of
                    [] \<Rightarrow> None
                  | c # cs \<Rightarrow>
                      if c \<noteq> colon \<or> length s \<le> length cs then None
                      else
                        (case json_value cs of
                           None \<Rightarrow> None
                         | Some (v, r2) \<Rightarrow>
                             (case skip_ws r2 of
                                [] \<Rightarrow> None
                              | d # ds \<Rightarrow>
                                  if d = CHR '','' then
                                    (if length ds < length s
                                     then json_members (obj_set acc k v) ds else None)
                                  else if d = CHR ''}'' then Some (JObj (obj_set acc k v), ds)
                                  else None)))))"
  by pat_completeness auto
termination
proof (relation "measure (\<lambda>x. case x of
          Inl s \<Rightarrow> 2 * length s
        | Inr (Inl (acc, s)) \<Rightarrow> 2 * length s + 1
        | Inr (Inr (acc, s)) \<Rightarrow> 2 * length s + 1)", goal_cases)
  case 1
  show ?case by simp
next
  case (2 s c cs d ds)
  have "length (skip_ws s) \<le> length s"
    unfolding skip_ws_def by (rule length_dropWhile_le)
  with 2 show ?case by simp
next
  case (3 s c cs d ds)
  have "length (skip_ws s) \<le> length s"
    unfolding skip_ws_def by (rule length_dropWhile_le)
  with 3 show ?case by simp
qed auto

definition JSON_parse :: "string \<Rightarrow> jsval option" where
  "JSON_parse s =
     (case json_value s of
        None \<Rightarrow> None
      | Some (v, r) \<Rightarrow> if skip_ws r = [] then Some v else None)"

section \<open>The codec (hdd-core.js)\<close>

subsection \<open>encodeValue\<close>

text \<open>\<open>encodeValue(value, depth)\<close>. Beyond the depth cap the result is empty; null and
  undefined are empty; a number or boolean is its text; a string has its separators
  replaced; a Date is the text of its milliseconds. In an array or object every element
  with \<open>typeof === 'object'\<close> is first replaced by its own encoding (a string) and every
  other element is kept as it is, then the whole is serialised. The copy of an object is
  built by \<open>sanitized[key] = ...\<close> on a fresh object, where the key \<open>__proto__\<close> meets the
  setter of \<open>Object.prototype\<close>: the value assigned is never an object, the setter ignores
  it, and the entry is lost. The \<open>catch\<close> of the source is not reached by a value of this
  model.\<close>

fun encodeValue :: "nat \<Rightarrow> jsval \<Rightarrow> string" where
  "encodeValue depth JNull = []"
| "encodeValue depth JUndefined = []"
| "encodeValue depth (JNum x) = (if depth > MAX_CONTEXT_DEPTH then [] else String_num x)"
| "encodeValue depth (JBool b) =
     (if depth > MAX_CONTEXT_DEPTH then [] else if b then ''true'' else ''false'')"
| "encodeValue depth (JStr s) = (if depth > MAX_CONTEXT_DEPTH then [] else escape_sep s)"
| "encodeValue depth (JDate t) = (if depth > MAX_CONTEXT_DEPTH then [] else String_int t)"
| "encodeValue depth (JArr xs) =
     (if depth > MAX_CONTEXT_DEPTH then []
      else case JSON_stringify (JArr (map (\<lambda>item.
                  if is_object item then JStr (encodeValue (depth + 1) item) else item) xs)) of
             None \<Rightarrow> [] | Some t \<Rightarrow> t)"
| "encodeValue depth (JObj kvs) =
     (if depth > MAX_CONTEXT_DEPTH then []
      else case JSON_stringify (JObj (filter (\<lambda>kv. fst kv \<noteq> ''__proto__'') (map (\<lambda>kv.
                  (fst kv, if is_object (snd kv) then JStr (encodeValue (depth + 1) (snd kv))
                           else snd kv)) kvs))) of
             None \<Rightarrow> [] | Some t \<Rightarrow> t)"

subsection \<open>generateIntegrityHash\<close>

text \<open>The accumulator is a 32-bit integer: \<open>hash & hash\<close> wraps \<open>(hash << 5) - hash + char\<close>
  to 32 bits. The result is the absolute value of the signed reading, in radix 36.\<close>

definition generateIntegrityHash :: "string \<Rightarrow> string" where
  "generateIntegrityHash data =
     (let hash = foldl (\<lambda>h c. (push_bit 5 h - h) + of_nat (of_char c)) (0 :: 32 word) data
      in radix_digits 36 \<bar>sint hash\<bar>)"

subsection \<open>encode\<close>

text \<open>The context field of \<open>encode\<close>: the encoding of the context at depth 1, and, when
  that is longer than 1000 characters, the serialised envelope with the keys \<open>data\<close>,
  \<open>_integrity\<close> and \<open>_ts\<close>. An exception of \<open>JSON.parse\<close> leaves the long encoding in place.\<close>

definition encodeContext :: "int \<Rightarrow> jsval \<Rightarrow> string" where
  "encodeContext now ctx =
     (let encodedContext = encodeValue 1 ctx in
      if length encodedContext > 1000 then
        (case JSON_parse encodedContext of
           None \<Rightarrow> encodedContext
         | Some d \<Rightarrow>
             (case JSON_stringify (JObj [(''data'', d),
                      (''_integrity'', JStr (generateIntegrityHash encodedContext)),
                      (''_ts'', JNum (num_of_int now))]) of
                None \<Rightarrow> encodedContext
              | Some t \<Rightarrow> t))
      else encodedContext)"

text \<open>\<open>encode(activity, value, context, version)\<close> with the clock reading \<open>now\<close> of
  \<open>Date.now()\<close> as a parameter. The activity and the version are strings; the empty
  result is the failure value of the source.\<close>

definition encode :: "int \<Rightarrow> string \<Rightarrow> jsval \<Rightarrow> jsval \<Rightarrow> string \<Rightarrow> string" where
  "encode now act v ctx ver =
     (if act = [] then []
      else
        (let encodedValue = encodeValue 0 v in
         if encodedValue = [] \<and> v \<noteq> JNull \<and> v \<noteq> JUndefined then []
         else
           (let encodedContext =
                  (if ctx \<noteq> JNull \<and> is_object ctx then encodeContext now ctx else []);
                parts = filter (\<lambda>part. part \<noteq> [])
                  [escape_sep act, String_int now, encodedValue, encodedContext, ver];
                hddString = join_with SEPARATOR parts
            in if length (split_sep hddString) < 3 then [] else hddString)))"

subsection \<open>decode\<close>

record activity_record =
  r_activity :: string
  r_timestamp :: "int option"
  r_value :: jsval
  r_context :: jsval
  r_version :: string

text \<open>\<open>parts[i]\<close> of the source, where an index beyond the array reads \<open>undefined\<close>; the
  source only tests such a field for truth, and both \<open>undefined\<close> and the empty string are
  false.\<close>

definition part :: "string list \<Rightarrow> nat \<Rightarrow> string" where
  "part parts i = (if i < length parts then parts ! i else [])"

text \<open>The coercion of the value field: an object, then an array, then a number, else the
  text itself; a failure of \<open>JSON.parse\<close> keeps the text.\<close>

definition coerce_value :: "string \<Rightarrow> jsval" where
  "coerce_value v =
     (if v \<noteq> [] \<and> hd v = CHR ''{'' \<and> last v = CHR ''}'' then
        (case JSON_parse v of None \<Rightarrow> JStr v | Some j \<Rightarrow> j)
      else if v \<noteq> [] \<and> hd v = CHR ''['' \<and> last v = CHR '']'' then
        (case JSON_parse v of None \<Rightarrow> JStr v | Some j \<Rightarrow> j)
      else
        (case Number_str v of
           None \<Rightarrow> JStr v
         | Some x \<Rightarrow> if js_trim v \<noteq> [] then JNum x else JStr v))"

definition decode :: "string \<Rightarrow> activity_record option" where
  "decode hddString =
     (if length hddString < 5 then None
      else
        (let parts = split_sep hddString in
         if length parts < 3 then None
         else
           Some \<lparr> r_activity = unescape_sep (part parts 0),
                  r_timestamp = parseInt10 (part parts 1),
                  r_value = coerce_value (unescape_sep (part parts 2)),
                  r_context =
                    (if part parts 3 \<noteq> [] then
                       (case JSON_parse (part parts 3) of
                          None \<Rightarrow> JStr (part parts 3)
                        | Some j \<Rightarrow> j)
                     else JNull),
                  r_version = (if part parts 4 \<noteq> [] then part parts 4 else CURRENT_VERSION) \<rparr>))"

subsection \<open>Texts that survive the escaping\<close>

fun starts_with :: "string \<Rightarrow> string \<Rightarrow> bool" where
  "starts_with [] s = True"
| "starts_with (p # ps) [] = False"
| "starts_with (p # ps) (c # cs) = (p = c \<and> starts_with ps cs)"

fun contains :: "string \<Rightarrow> string \<Rightarrow> bool" where
  "contains p [] = starts_with p []"
| "contains p (c # cs) = (starts_with p (c # cs) \<or> contains p cs)"

definition ends_colon :: "string \<Rightarrow> bool" where
  "ends_colon s = (s \<noteq> [] \<and> last s = colon)"


text \<open>A text is safe to escape when it has no three colons in a row, no backslash in
  front of a colon, and no colon at its end.\<close>

definition escape_safe :: "string \<Rightarrow> bool" where
  "escape_safe s =
     (\<not> contains [colon, colon, colon] s \<and> \<not> contains [backslash, colon] s \<and> \<not> ends_colon s)"







section \<open>The analytics engine (hdd-api.js)\<close>

subsection \<open>measureContextComplexity\<close>

text \<open>The traversal follows object references and guards against cycles by object
  identity, so its input is a graph: a heap maps an address to an object, and a property
  holds either an object reference or a primitive (null, undefined, a number, a string or
  a boolean, which the traversal does not tell apart). An object is plain, an array or a
  Date, and lists its own enumerable keys in the order of \<open>Object.keys\<close>.\<close>

type_synonym addr = nat

datatype okind = PlainObject | ArrayObject | DateObject

datatype hval = HPrim | HRef addr

record hobj =
  o_kind :: okind
  o_props :: "(string \<times> hval) list"

type_synonym heap = "addr \<Rightarrow> hobj"

definition MAX_ITERATIONS :: nat where
  "MAX_ITERATIONS = 1000"

text \<open>The values pushed for the keys of an object: those that are objects, but neither
  arrays nor Dates.\<close>

definition pushed :: "heap \<Rightarrow> hobj \<Rightarrow> nat \<Rightarrow> (addr \<times> nat) list" where
  "pushed h ob depth =
     concat (map (\<lambda>kv. case snd kv of
                          HPrim \<Rightarrow> []
                        | HRef a \<Rightarrow> if o_kind (h a) = PlainObject then [(a, depth + 1)] else [])
                 (o_props ob))"

text \<open>The \<open>while\<close> loop. The stack is a list whose head is the top: \<open>pop\<close> takes the head and
  the pushes of one iteration end up reversed in front of the rest. The result is the
  accumulated complexity and the iteration count at the exit.\<close>

function complexity_loop ::
  "heap \<Rightarrow> nat \<Rightarrow> (addr \<times> nat) list \<Rightarrow> addr set \<Rightarrow> nat \<Rightarrow> rat \<Rightarrow> rat \<times> nat" where
  "complexity_loop h maxDepth stack visited iterationCount complexity =
     (case stack of
        [] \<Rightarrow> (complexity, iterationCount)
      | (obj, depth) # rest \<Rightarrow>
          if \<not> iterationCount < MAX_ITERATIONS then (complexity, iterationCount)
          else if depth > maxDepth then
            complexity_loop h maxDepth rest visited (iterationCount + 1) (complexity + 10)
          else if obj \<in> visited then
            complexity_loop h maxDepth rest visited (iterationCount + 1) (complexity + 5)
          else
            complexity_loop h maxDepth (rev (pushed h (h obj) depth) @ rest)
              (insert obj visited) (iterationCount + 1)
              (complexity + 1 + min (of_nat (length (o_props (h obj))) * (1 / 2)) 20))"
  by pat_completeness auto
termination
  by (relation "measure (\<lambda>(h, maxDepth, stack, visited, iterationCount, complexity).
        MAX_ITERATIONS - iterationCount)") auto

text \<open>\<open>measureContextComplexity(context, maxDepth)\<close>; a context that is not an object
  scores 0.\<close>

definition measureContextComplexity :: "heap \<Rightarrow> hval \<Rightarrow> nat \<Rightarrow> rat" where
  "measureContextComplexity h ctx maxDepth =
     (case ctx of
        HPrim \<Rightarrow> 0
      | HRef a \<Rightarrow> min (fst (complexity_loop h maxDepth [(a, 0)] {} 0 0)) 100)"

definition default_maxDepth :: nat where
  "default_maxDepth = 8"

text \<open>A flat map: no property of the object at \<open>a\<close> holds a nested map (its values are
  primitives, arrays or Dates).\<close>

definition flat_map :: "heap \<Rightarrow> addr \<Rightarrow> bool" where
  "flat_map h a =
     list_all (\<lambda>kv. case snd kv of HPrim \<Rightarrow> True | HRef b \<Rightarrow> o_kind (h b) \<noteq> PlainObject)
       (o_props (h a))"

subsection \<open>calculateImpact\<close>







subsection \<open>detectActivityPattern and predictNext\<close>

datatype pattern =
    insufficient_data | no_valid_activities | no_transitions
  | strong_sequence | moderate_sequence | weak_sequence
  | high_diversity | repetitive | random_pattern

text \<open>The result object; a field that a result does not have is \<open>None\<close>, and \<open>p_next\<close> is
  \<open>None\<close> for \<open>next: null\<close>.\<close>

record prediction =
  p_next :: "string option"
  p_confidence :: rat
  p_pattern :: pattern
  p_valid_events :: "nat option"
  p_dominant_activity :: "string option"
  p_activity_count :: "nat option"
  p_alternatives :: "(string \<times> rat) list option"

text \<open>\<open>Math.round(x * 100) / 100\<close>.\<close>

definition round2 :: "rat \<Rightarrow> rat" where
  "round2 x = of_int \<lfloor>x * 100 + 1 / 2\<rfloor> / 100"

text \<open>The property read \<open>o[k]\<close> on an object given by its list of own properties. A key
  that names a member of \<open>Object.prototype\<close> (such as \<open>constructor\<close> or \<open>toString\<close>) would
  read that member in the source; activity labels are taken not to be such names.\<close>

definition obj_get :: "(string \<times> 'v) list \<Rightarrow> string \<Rightarrow> 'v option" where
  "obj_get kvs k = map_of kvs k"

text \<open>One step of the loop that counts transitions:
  \<open>if (!tm[from]) tm[from] = {}; tm[from][to] = (tm[from][to] || 0) + 1\<close>.\<close>

definition count_transition ::
  "(string \<times> (string \<times> nat) list) list \<Rightarrow> string \<times> string \<Rightarrow> (string \<times> (string \<times> nat) list) list"
where
  "count_transition tm ft =
     (let row = (case obj_get tm (fst ft) of None \<Rightarrow> [] | Some r \<Rightarrow> r);
          n = (case obj_get row (snd ft) of None \<Rightarrow> 0 | Some c \<Rightarrow> c)
      in obj_set tm (fst ft) (obj_set row (snd ft) (n + 1)))"

definition transitionMatrix :: "string list \<Rightarrow> (string \<times> (string \<times> nat) list) list" where
  "transitionMatrix activities = foldl count_transition [] (zip activities (tl activities))"

text \<open>The loop over \<open>Object.entries(possibleNext)\<close> that keeps the first entry of strictly
  greatest probability.\<close>

definition mostLikely :: "(string \<times> nat) list \<Rightarrow> rat \<times> string option" where
  "mostLikely possibleNext =
     (let totalTransitions = sum_list (map snd possibleNext) in
      foldl (\<lambda>best entry.
               let probability = of_nat (snd entry) / of_nat totalTransitions in
               if probability > fst best then (probability, Some (fst entry)) else best)
            (0, None) possibleNext)"

text \<open>\<open>_findDominantActivity\<close>: the first activity whose running count exceeds every
  count seen before.\<close>

definition findDominantActivity :: "string list \<Rightarrow> string option" where
  "findDominantActivity activities =
     snd (snd (foldl (\<lambda>st a.
                 let counts = (fst st)(a := fst st a + 1) in
                 if counts a > fst (snd st) then (counts, counts a, Some a)
                 else (counts, snd st))
               ((\<lambda>a. 0 :: nat), 0 :: nat, (case activities of [] \<Rightarrow> None | a # as \<Rightarrow> Some a))
               activities))"

definition determinePatternType :: "string list \<Rightarrow> rat \<Rightarrow> pattern" where
  "determinePatternType activities probability =
     (if probability > 8 / 10 then strong_sequence
      else if probability > 6 / 10 then moderate_sequence
      else if probability > 4 / 10 then weak_sequence
      else
        (let diversity = of_nat (length (remdups activities)) / of_nat (length activities) :: rat
         in if diversity > 7 / 10 then high_diversity
            else if diversity < 3 / 10 then repetitive
            else random_pattern))"

text \<open>The activities of the events of the trailing window that decode with a non-empty
  activity.\<close>

definition window_activities :: "string list \<Rightarrow> nat \<Rightarrow> string list" where
  "window_activities events lookback =
     concat (map (\<lambda>e. case decode e of
                         None \<Rightarrow> []
                       | Some d \<Rightarrow> if r_activity d \<noteq> [] then [r_activity d] else [])
                 (drop (length events - lookback) events))"

definition detectActivityPattern :: "string list \<Rightarrow> nat \<Rightarrow> prediction" where
  "detectActivityPattern events lookback =
     (if length events < 3 then
        \<lparr> p_next = None, p_confidence = 0, p_pattern = insufficient_data,
          p_valid_events = Some (length events), p_dominant_activity = None,
          p_activity_count = None, p_alternatives = None \<rparr>
      else
        (let activities = window_activities events lookback in
         if length activities < 2 then
           \<lparr> p_next = None, p_confidence = 0, p_pattern = no_valid_activities,
             p_valid_events = Some (length activities), p_dominant_activity = None,
             p_activity_count = None, p_alternatives = None \<rparr>
         else
           (case obj_get (transitionMatrix activities) (last activities) of
              None \<Rightarrow>
                \<lparr> p_next = None, p_confidence = 0, p_pattern = no_transitions,
                  p_valid_events = None,
                  p_dominant_activity = findDominantActivity activities,
                  p_activity_count = Some (length activities), p_alternatives = None \<rparr>
            | Some possibleNext \<Rightarrow>
                if possibleNext = [] then
                  \<lparr> p_next = None, p_confidence = 0, p_pattern = no_transitions,
                    p_valid_events = None,
                    p_dominant_activity = findDominantActivity activities,
                    p_activity_count = Some (length activities), p_alternatives = None \<rparr>
                else
                  (let totalTransitions = sum_list (map snd possibleNext);
                       best = mostLikely possibleNext
                   in \<lparr> p_next = snd best,
                        p_confidence = round2 (fst best),
                        p_pattern = determinePatternType activities (fst best),
                        p_valid_events = None,
                        p_dominant_activity = findDominantActivity activities,
                        p_activity_count = Some (length activities),
                        p_alternatives = Some (take 3 (sort_key (\<lambda>alt. - snd alt)
                          (map (\<lambda>entry. (fst entry,
                                  round2 (of_nat (snd entry) / of_nat totalTransitions)))
                               possibleNext))) \<rparr>))))"

text \<open>\<open>predictNext(events, options)\<close>: a lookback outside 3..50, or none, is 10.\<close>

definition lookback_of :: "nat option \<Rightarrow> nat" where
  "lookback_of lookback_opt =
     (case lookback_opt of
        None \<Rightarrow> 10
      | Some l \<Rightarrow> if 3 \<le> l \<and> l \<le> 50 then l else 10)"

definition predictNext :: "string list \<Rightarrow> nat option \<Rightarrow> prediction" where
  "predictNext events lookback_opt = detectActivityPattern events (lookback_of lookback_opt)"

text \<open>The names of the members of \<open>Object.prototype\<close>, which the property reads of the
  source would find on an empty object.\<close>

definition proto_names :: "string list" where
  "proto_names =
     [''constructor'', ''hasOwnProperty'', ''isPrototypeOf'', ''propertyIsEnumerable'',
      ''toLocaleString'', ''toString'', ''valueOf'', ''__proto__'', ''__defineGetter__'',
      ''__defineSetter__'', ''__lookupGetter__'', ''__lookupSetter__'']"

text \<open>\<open>first_max row a\<close>: the entry of \<open>a\<close> is the first one of greatest count in \<open>row\<close>.
  All entries of a row are divided by the same total, so this is the first entry of greatest
  probability.\<close>

definition first_max :: "(string \<times> nat) list \<Rightarrow> string \<Rightarrow> bool" where
  "first_max row a =
     (\<exists>pre c post. row = pre @ (a, c) # post \<and>
        (\<forall>e \<in> set pre. snd e < c) \<and> (\<forall>e \<in> set post. snd e \<le> c))"

text \<open>Every row of a transition table is non-empty and holds positive counts.\<close>

definition rows_ok :: "(string \<times> (string \<times> nat) list) list \<Rightarrow> bool" where
  "rows_ok tm = (\<forall>kr \<in> set tm. snd kr \<noteq> [] \<and> (\<forall>e \<in> set (snd kr). 0 < snd e))"

subsection \<open>analyzePattern\<close>







subsection \<open>sanitizeContext and injectContext\<close>















section \<open>Properties of the codec\<close>

text \<open>The recursion equations of the digit functions rewrite their own right-hand sides;
  they are used where a proof asks for them.\<close>

declare radix_digits.simps [simp del]
declare norm_dec.simps [simp del]

subsection \<open>Splitting and joining\<close>

lemma split_sep_not_Nil: "split_sep s \<noteq> []"
  by (induction s rule: split_sep.induct) (auto split: list.splits)

lemma join_split_sep: "join_with SEPARATOR (split_sep s) = s"
proof (induction s rule: split_sep.induct)
  case (1 c d cs)
  show ?case
  proof (cases "c = colon \<and> d = colon")
    case True
    obtain p ps where ps: "split_sep cs = p # ps"
      using split_sep_not_Nil [of cs] by (cases "split_sep cs") auto
    with True 1 show ?thesis by (simp add: SEPARATOR_def)
  next
    case False
    obtain p ps where ps: "split_sep (d # cs) = p # ps"
      using split_sep_not_Nil [of "d # cs"] by (cases "split_sep (d # cs)") auto
    with False 1 show ?thesis by (cases ps) auto
  qed
qed simp_all

lemma length_join_with:
  "length (join_with sep ps) = sum_list (map length ps) + length sep * (length ps - 1)"
  by (induction sep ps rule: join_with.induct) auto

lemma length_split_sep:
  "length s = sum_list (map length (split_sep s)) + 2 * (length (split_sep s) - 1)"
proof -
  have "length (join_with SEPARATOR (split_sep s)) =
      sum_list (map length (split_sep s)) + length SEPARATOR * (length (split_sep s) - 1)"
    by (rule length_join_with)
  then show ?thesis
    unfolding join_split_sep by (simp add: SEPARATOR_def)
qed

text \<open>The only input of three fields or more that is shorter than five characters is the
  text of two bare separators.\<close>

lemma three_fields_short:
  assumes "3 \<le> length (split_sep s)" and "length s < 5"
  shows "s = [colon, colon, colon, colon]"
proof -
  have len: "length s = sum_list (map length (split_sep s)) + 2 * (length (split_sep s) - 1)"
    by (rule length_split_sep)
  with assms have n: "length (split_sep s) = 3" and z: "sum_list (map length (split_sep s)) = 0"
    by linarith+
  from n obtain a b c where abc: "split_sep s = [a, b, c]"
    by (auto simp: length_Suc_conv eval_nat_numeral)
  with z have "a = [] \<and> b = [] \<and> c = []" by simp
  with abc have "join_with SEPARATOR (split_sep s) = [colon, colon, colon, colon]"
    by (simp add: SEPARATOR_def)
  then show ?thesis by (simp add: join_split_sep)
qed

lemma decode_None_iff:
  "decode s = None \<longleftrightarrow> length (split_sep s) < 3 \<or> s = [colon, colon, colon, colon]"
proof
  assume "decode s = None"
  then have "length s < 5 \<or> length (split_sep s) < 3"
    by (auto simp: decode_def Let_def split: if_splits)
  then show "length (split_sep s) < 3 \<or> s = [colon, colon, colon, colon]"
    using three_fields_short [of s] by fastforce
next
  assume "length (split_sep s) < 3 \<or> s = [colon, colon, colon, colon]"
  then show "decode s = None"
    by (auto simp: decode_def Let_def)
qed

subsection \<open>C4: when decode fails\<close>

text \<open>C4, as stated, fails: the input \<open>::::\<close> splits into three (empty) fields, yet
  \<open>decode\<close> rejects it, because it is shorter than five characters.\<close>

theorem C4_counterexample:
  "length (split_sep ''::::'') = 3 \<and> decode ''::::'' = None"
  by (simp add: decode_def colon_def)

text \<open>C4, amended: \<open>decode\<close> fails exactly when the input splits into fewer than three
  fields or is the bare text \<open>::::\<close>. Every other input decodes, and its optional fields
  degrade: a value field that is neither of JSON shape nor numeric stays its unescaped text,
  and so does one of JSON shape that does not parse; an absent or empty context field gives
  the null context; a context field that does not parse is kept as raw text; an absent or
  empty version field gives the current version.\<close>

theorem C4_decode_fails_iff:
  "(decode s = None \<longleftrightarrow> length (split_sep s) < 3 \<or> s = [colon, colon, colon, colon]) \<and>
   (\<forall>r. decode s = Some r \<longrightarrow>
      (let v = unescape_sep (part (split_sep s) 2);
           c = part (split_sep s) 3;
           w = part (split_sep s) 4
       in (JSON_parse v = None \<and> Number_str v = None \<longrightarrow> r_value r = JStr v) \<and>
          (c = [] \<longrightarrow> r_context r = JNull) \<and>
          (c \<noteq> [] \<and> JSON_parse c = None \<longrightarrow> r_context r = JStr c) \<and>
          (w = [] \<longrightarrow> r_version r = CURRENT_VERSION) \<and>
          (w \<noteq> [] \<longrightarrow> r_version r = w)))"
proof (intro conjI allI impI)
  show "decode s = None \<longleftrightarrow> length (split_sep s) < 3 \<or> s = [colon, colon, colon, colon]"
    by (rule decode_None_iff)
next
  fix r
  assume "decode s = Some r"
  then have r: "r = \<lparr> r_activity = unescape_sep (part (split_sep s) 0),
        r_timestamp = parseInt10 (part (split_sep s) 1),
        r_value = coerce_value (unescape_sep (part (split_sep s) 2)),
        r_context =
          (if part (split_sep s) 3 \<noteq> [] then
             (case JSON_parse (part (split_sep s) 3) of
                None \<Rightarrow> JStr (part (split_sep s) 3)
              | Some j \<Rightarrow> j)
           else JNull),
        r_version = (if part (split_sep s) 4 \<noteq> [] then part (split_sep s) 4
                     else CURRENT_VERSION) \<rparr>"
    by (auto simp: decode_def Let_def split: if_splits)
  show "let v = unescape_sep (part (split_sep s) 2);
            c = part (split_sep s) 3;
            w = part (split_sep s) 4
        in (JSON_parse v = None \<and> Number_str v = None \<longrightarrow> r_value r = JStr v) \<and>
           (c = [] \<longrightarrow> r_context r = JNull) \<and>
           (c \<noteq> [] \<and> JSON_parse c = None \<longrightarrow> r_context r = JStr c) \<and>
           (w = [] \<longrightarrow> r_version r = CURRENT_VERSION) \<and>
           (w \<noteq> [] \<longrightarrow> r_version r = w)"
    unfolding Let_def r by (simp add: coerce_value_def)
qed

text \<open>A record whose timestamp, value and context fields are all malformed and whose
  version is absent still decodes.\<close>

theorem C4_decode_fails_iff_witness:
  "\<exists>r. decode ''a::x::{bad::{worse'' = Some r \<and> r_value r = JStr ''{bad'' \<and>
       r_context r = JStr ''{worse'' \<and> r_version r = CURRENT_VERSION"
proof -
  let ?s = "''a::x::{bad::{worse''"
  have sp: "split_sep ?s = [''a'', ''x'', ''{bad'', ''{worse'']"
    by (simp add: colon_def)
  have "decode ?s \<noteq> None"
    using C4_decode_fails_iff [of ?s] unfolding sp by (simp add: colon_def)
  then obtain r where r: "decode ?s = Some r" by auto
  have p1: "JSON_parse ''{bad'' = None" by code_simp
  have p2: "Number_str ''{bad'' = None" by code_simp
  have p3: "JSON_parse ''{worse'' = None" by code_simp
  from C4_decode_fails_iff [of ?s] r
  have "r_value r = JStr ''{bad'' \<and> r_context r = JStr ''{worse'' \<and>
      r_version r = CURRENT_VERSION"
    unfolding sp Let_def by (simp add: part_def backslash_def colon_def p1 p2 p3)
  with r show ?thesis by blast
qed

section \<open>Properties of the analytics engine\<close>

subsection \<open>C9: calculateImpact\<close>










subsection \<open>C5 and C6: measureContextComplexity\<close>

text \<open>The five cases of one iteration of the loop.\<close>

lemma loop_Nil: "complexity_loop h md [] vis n c = (c, n)"
  by simp

lemma loop_cap: "\<not> n < MAX_ITERATIONS \<Longrightarrow> complexity_loop h md st vis n c = (c, n)"
  by (cases st) auto

lemma loop_deep:
  "n < MAX_ITERATIONS \<Longrightarrow> md < depth \<Longrightarrow>
   complexity_loop h md ((obj, depth) # rest) vis n c =
   complexity_loop h md rest vis (n + 1) (c + 10)"
  by simp

lemma loop_revisit:
  "n < MAX_ITERATIONS \<Longrightarrow> \<not> md < depth \<Longrightarrow> obj \<in> vis \<Longrightarrow>
   complexity_loop h md ((obj, depth) # rest) vis n c =
   complexity_loop h md rest vis (n + 1) (c + 5)"
  by simp

lemma loop_visit:
  "n < MAX_ITERATIONS \<Longrightarrow> \<not> md < depth \<Longrightarrow> obj \<notin> vis \<Longrightarrow>
   complexity_loop h md ((obj, depth) # rest) vis n c =
   complexity_loop h md (rev (pushed h (h obj) depth) @ rest) (insert obj vis) (n + 1)
     (c + 1 + min (of_nat (length (o_props (h obj))) * (1 / 2)) 20)"
  by simp

declare complexity_loop.simps [simp del]

lemma node_score_nonneg: "0 \<le> min (of_nat k * (1 / 2)) (20 :: rat)"
  by simp

lemma complexity_loop_mono: "c \<le> fst (complexity_loop h md st vis n c)"
proof (induction h md st vis n c rule: complexity_loop.induct)
  case (1 h md st vis n c)
  show ?case
  proof (cases st)
    case Nil
    then show ?thesis by (simp add: loop_Nil)
  next
    case (Cons top rest)
    obtain obj depth where top: "top = (obj, depth)" by (cases top)
    note st = Cons [unfolded top]
    consider (cap) "\<not> n < MAX_ITERATIONS"
      | (deep) "n < MAX_ITERATIONS" "md < depth"
      | (revisit) "n < MAX_ITERATIONS" "\<not> md < depth" "obj \<in> vis"
      | (visit) "n < MAX_ITERATIONS" "\<not> md < depth" "obj \<notin> vis"
      by blast
    then show ?thesis
    proof cases
      case cap
      then show ?thesis by (simp add: loop_cap)
    next
      case deep
      from 1(1) [OF Cons top [symmetric]] deep
      have "c + 10 \<le> fst (complexity_loop h md rest vis (n + 1) (c + 10))" by simp
      with deep show ?thesis unfolding st by (simp add: loop_deep)
    next
      case revisit
      from 1(2) [OF Cons top [symmetric]] revisit
      have "c + 5 \<le> fst (complexity_loop h md rest vis (n + 1) (c + 5))" by simp
      with revisit show ?thesis unfolding st by (simp add: loop_revisit)
    next
      case visit
      let ?c' = "c + 1 + min (of_nat (length (o_props (h obj))) * (1 / 2)) 20"
      from 1(3) [OF Cons top [symmetric]] visit
      have "?c' \<le> fst (complexity_loop h md (rev (pushed h (h obj) depth) @ rest)
          (insert obj vis) (n + 1) ?c')" by simp
      moreover have "c \<le> ?c'"
        using node_score_nonneg [of "length (o_props (h obj))"] by linarith
      ultimately show ?thesis using visit unfolding st by (simp add: loop_visit)
    qed
  qed
qed

lemma complexity_loop_iterations:
  "snd (complexity_loop h md st vis n c) \<le> max n MAX_ITERATIONS"
proof (induction h md st vis n c rule: complexity_loop.induct)
  case (1 h md st vis n c)
  show ?case
  proof (cases st)
    case Nil
    then show ?thesis by (simp add: loop_Nil)
  next
    case (Cons top rest)
    obtain obj depth where top: "top = (obj, depth)" by (cases top)
    note st = Cons [unfolded top]
    consider (cap) "\<not> n < MAX_ITERATIONS"
      | (deep) "n < MAX_ITERATIONS" "md < depth"
      | (revisit) "n < MAX_ITERATIONS" "\<not> md < depth" "obj \<in> vis"
      | (visit) "n < MAX_ITERATIONS" "\<not> md < depth" "obj \<notin> vis"
      by blast
    then show ?thesis
    proof cases
      case cap
      then show ?thesis by (simp add: loop_cap)
    next
      case deep
      from 1(1) [OF Cons top [symmetric]] deep
      have "snd (complexity_loop h md rest vis (n + 1) (c + 10)) \<le> max (n + 1) MAX_ITERATIONS"
        by simp
      with deep show ?thesis unfolding st by (simp add: loop_deep)
    next
      case revisit
      from 1(2) [OF Cons top [symmetric]] revisit
      have "snd (complexity_loop h md rest vis (n + 1) (c + 5)) \<le> max (n + 1) MAX_ITERATIONS"
        by simp
      with revisit show ?thesis unfolding st by (simp add: loop_revisit)
    next
      case visit
      let ?c' = "c + 1 + min (of_nat (length (o_props (h obj))) * (1 / 2)) 20"
      from 1(3) [OF Cons top [symmetric]] visit
      have "snd (complexity_loop h md (rev (pushed h (h obj) depth) @ rest)
          (insert obj vis) (n + 1) ?c') \<le> max (n + 1) MAX_ITERATIONS" by simp
      with visit show ?thesis unfolding st by (simp add: loop_visit)
    qed
  qed
qed

lemma score_bounds:
  "0 \<le> measureContextComplexity h ctx md \<and> measureContextComplexity h ctx md \<le> 100"
proof (cases ctx)
  case HPrim
  then show ?thesis by (simp add: measureContextComplexity_def)
next
  case (HRef a)
  have "0 \<le> fst (complexity_loop h md [(a, 0)] {} 0 0)"
    by (rule complexity_loop_mono)
  with HRef show ?thesis by (simp add: measureContextComplexity_def)
qed

lemma pushed_flat: "flat_map h a \<Longrightarrow> pushed h (h a) d = []"
  unfolding flat_map_def pushed_def
  by (induction "o_props (h a)") (auto simp: list_all_iff split: hval.splits)

lemma flat_score:
  assumes "flat_map h a"
  shows "measureContextComplexity h (HRef a) md =
         1 + min (of_nat (length (o_props (h a))) * (1 / 2)) 20"
proof -
  have "complexity_loop h md [(a, 0)] {} 0 0 =
        complexity_loop h md [] {a} 1 (1 + min (of_nat (length (o_props (h a))) * (1 / 2)) 20)"
    using pushed_flat [OF assms, of 0] by (simp add: loop_visit MAX_ITERATIONS_def)
  then show ?thesis
    by (simp add: measureContextComplexity_def loop_Nil)
qed

lemma visited_score:
  "min (1 + min (of_nat (length (o_props (h a))) * (1 / 2)) 20) 100
     \<le> measureContextComplexity h (HRef a) md"
proof -
  let ?c = "1 + min (of_nat (length (o_props (h a))) * (1 / 2)) (20 :: rat)"
  have "complexity_loop h md [(a, 0)] {} 0 0 =
        complexity_loop h md (rev (pushed h (h a) 0) @ []) {a} 1 ?c"
    by (simp add: loop_visit MAX_ITERATIONS_def)
  moreover have "?c \<le> fst (complexity_loop h md (rev (pushed h (h a) 0) @ []) {a} 1 ?c)"
    by (rule complexity_loop_mono)
  ultimately show ?thesis
    by (simp add: measureContextComplexity_def)
qed

lemma length_obj_set:
  "k \<notin> fst ` set kvs \<Longrightarrow> length (obj_set kvs k v) = Suc (length kvs)"
  by (induction kvs k v rule: obj_set.induct) auto


text \<open>C5: the score lies in \<open>[0, 100]\<close> for every heap, cyclic or not, every context and
  every depth cap; and the score of a flat map does not decrease when a key that it lacks
  is set on it, whatever the value of the new key is.\<close>

theorem C5_complexity_bounds:
  "0 \<le> measureContextComplexity h ctx md \<and> measureContextComplexity h ctx md \<le> 100 \<and>
   (flat_map h a \<and> k \<notin> fst ` set (o_props (h a)) \<longrightarrow>
      measureContextComplexity h (HRef a) md
        \<le> measureContextComplexity
             (h(a := (h a)\<lparr>o_props := obj_set (o_props (h a)) k v\<rparr>)) (HRef a) md)"
proof (intro conjI impI)
  show "0 \<le> measureContextComplexity h ctx md" and "measureContextComplexity h ctx md \<le> 100"
    using score_bounds [of h ctx md] by simp_all
next
  assume a: "flat_map h a \<and> k \<notin> fst ` set (o_props (h a))"
  let ?h' = "h(a := (h a)\<lparr>o_props := obj_set (o_props (h a)) k v\<rparr>)"
  let ?n = "length (o_props (h a))"
  have len: "length (o_props (?h' a)) = Suc ?n"
    using a by (simp add: length_obj_set)
  have "measureContextComplexity h (HRef a) md = 1 + min (of_nat ?n * (1 / 2)) 20"
    using a by (simp add: flat_score)
  also have "\<dots> \<le> min (1 + min (of_nat (Suc ?n) * (1 / 2)) 20) 100"
    by simp
  also have "\<dots> \<le> measureContextComplexity ?h' (HRef a) md"
    using visited_score [of ?h' a md] unfolding len .
  finally show "measureContextComplexity h (HRef a) md
      \<le> measureContextComplexity ?h' (HRef a) md" .
qed

text \<open>A flat map of one key scores 3/2; with a second key it scores 2.\<close>

theorem C5_complexity_bounds_witness:
  "measureContextComplexity (\<lambda>a. \<lparr>o_kind = PlainObject, o_props = [(''x'', HPrim)]\<rparr>)
     (HRef 0) 8 = 3 / 2 \<and>
   measureContextComplexity
     ((\<lambda>a. \<lparr>o_kind = PlainObject, o_props = [(''x'', HPrim)]\<rparr>)
        (0 := \<lparr>o_kind = PlainObject, o_props = [(''x'', HPrim), (''y'', HPrim)]\<rparr>))
     (HRef 0) 8 = 2"
proof -
  let ?h = "\<lambda>a :: addr. \<lparr>o_kind = PlainObject, o_props = [(''x'', HPrim)]\<rparr>"
  have f: "flat_map ?h 0 \<and> ''y'' \<notin> fst ` set (o_props (?h 0))"
    by (simp add: flat_map_def)
  have "measureContextComplexity ?h (HRef 0) 8
      \<le> measureContextComplexity
           (?h(0 := (?h 0)\<lparr>o_props := obj_set (o_props (?h 0)) ''y'' HPrim\<rparr>)) (HRef 0) 8"
    using C5_complexity_bounds [of ?h "HRef 0" 8 0 "''y''" HPrim] f by blast
  moreover have "measureContextComplexity ?h (HRef 0) 8 = 3 / 2"
    by (simp add: measureContextComplexity_def complexity_loop.simps pushed_def
        MAX_ITERATIONS_def)
  moreover have "measureContextComplexity
      (?h(0 := \<lparr>o_kind = PlainObject, o_props = [(''x'', HPrim), (''y'', HPrim)]\<rparr>))
      (HRef 0) 8 = 2"
    by (simp add: measureContextComplexity_def complexity_loop.simps pushed_def
        MAX_ITERATIONS_def)
  ultimately show ?thesis by simp
qed

text \<open>C6: the loop is a total function (its recursion decreases
  \<open>MAX_ITERATIONS - iterationCount\<close>), it leaves after at most \<open>MAX_ITERATIONS\<close> iterations
  on every heap, cyclic ones included, the score it yields is a number in \<open>[0, 100]\<close>, and an
  iteration that pops an object seen before adds 5 and pushes nothing.\<close>

theorem C6_complexity_terminates:
  "snd (complexity_loop h md [(a, 0)] {} 0 0) \<le> MAX_ITERATIONS \<and>
   (\<exists>score. measureContextComplexity h ctx md = score \<and> 0 \<le> score \<and> score \<le> 100) \<and>
   (n < MAX_ITERATIONS \<and> depth \<le> md \<and> obj \<in> vis \<longrightarrow>
      complexity_loop h md ((obj, depth) # rest) vis n c =
      complexity_loop h md rest vis (n + 1) (c + 5))"
proof (intro conjI impI)
  show "snd (complexity_loop h md [(a, 0)] {} 0 0) \<le> MAX_ITERATIONS"
    using complexity_loop_iterations [of h md "[(a, 0)]" "{}" 0 0] by simp
next
  show "\<exists>score. measureContextComplexity h ctx md = score \<and> 0 \<le> score \<and> score \<le> 100"
    using score_bounds [of h ctx md] by simp
next
  assume "n < MAX_ITERATIONS \<and> depth \<le> md \<and> obj \<in> vis"
  then show "complexity_loop h md ((obj, depth) # rest) vis n c =
      complexity_loop h md rest vis (n + 1) (c + 5)"
    by (simp add: loop_revisit)
qed

text \<open>An object whose only property refers to the object itself: the first iteration
  visits it, the second meets it again, and the loop ends with the score 13/2.\<close>

theorem C6_complexity_terminates_witness:
  "complexity_loop (\<lambda>a. \<lparr>o_kind = PlainObject, o_props = [(''self'', HRef 0)]\<rparr>) 8
     [(0, 0)] {} 0 0 = (13 / 2, 2) \<and>
   measureContextComplexity (\<lambda>a. \<lparr>o_kind = PlainObject, o_props = [(''self'', HRef 0)]\<rparr>)
     (HRef 0) 8 = 13 / 2"
proof -
  let ?h = "\<lambda>a :: addr. \<lparr>o_kind = PlainObject, o_props = [(''self'', HRef 0)]\<rparr>"
  have first: "complexity_loop ?h 8 [(0, 0)] {} 0 0 =
      complexity_loop ?h 8 [(0, 1)] {0} 1 (3 / 2)"
    by (simp add: loop_visit pushed_def MAX_ITERATIONS_def)
  have "(1 :: nat) < MAX_ITERATIONS \<and> (1 :: nat) \<le> 8 \<and> (0 :: addr) \<in> {0}"
    by (simp add: MAX_ITERATIONS_def)
  with C6_complexity_terminates [of ?h 8 0 "HRef 0" 1 1 0 "{0}" "[]" "3 / 2"]
  have second: "complexity_loop ?h 8 [(0, 1)] {0} 1 (3 / 2) =
      complexity_loop ?h 8 [] {0} (1 + 1) (3 / 2 + 5)"
    by blast
  have l: "complexity_loop ?h 8 [(0, 0)] {} 0 0 = (13 / 2, 2)"
    unfolding first second by (simp add: loop_Nil)
  then show ?thesis
    by (simp add: measureContextComplexity_def)
qed

subsection \<open>C8: the batch limit of analyzePattern\<close>





subsection \<open>C7: predictNext\<close>

lemma map_of_obj_set: "map_of (obj_set kvs k v) = (map_of kvs)(k \<mapsto> v)"
  by (induction kvs k v rule: obj_set.induct) (auto simp: fun_eq_iff)

lemma set_obj_set_subset: "set (obj_set kvs k v) \<subseteq> insert (k, v) (set kvs)"
  by (induction kvs k v rule: obj_set.induct) auto

lemma obj_set_not_Nil: "obj_set kvs k v \<noteq> []"
  by (induction kvs k v rule: obj_set.induct) auto

lemma keys_obj_set: "fst ` set (obj_set kvs k v) = insert k (fst ` set kvs)"
  by (induction kvs k v rule: obj_set.induct) auto

lemma rows_ok_count_transition:
  assumes "rows_ok tm"
  shows "rows_ok (count_transition tm ft)"
proof -
  define row where "row = (case obj_get tm (fst ft) of None \<Rightarrow> [] | Some r \<Rightarrow> r)"
  define n where "n = (case obj_get row (snd ft) of None \<Rightarrow> 0 | Some c \<Rightarrow> c)"
  define row' where "row' = obj_set row (snd ft) (n + 1)"
  have row: "\<forall>e \<in> set row. 0 < snd e"
  proof (cases "obj_get tm (fst ft)")
    case None
    then show ?thesis by (simp add: row_def)
  next
    case (Some r)
    then have "(fst ft, r) \<in> set tm" by (simp add: obj_get_def map_of_SomeD)
    with assms Some show ?thesis by (auto simp: rows_ok_def row_def)
  qed
  have new: "\<forall>e \<in> set row'. 0 < snd e"
  proof
    fix e assume "e \<in> set row'"
    then have "e = (snd ft, n + 1) \<or> e \<in> set row"
      using set_obj_set_subset [of row "snd ft" "n + 1"] by (auto simp: row'_def)
    with row show "0 < snd e" by auto
  qed
  have ne: "row' \<noteq> []" by (simp add: row'_def obj_set_not_Nil)
  have ct: "count_transition tm ft = obj_set tm (fst ft) row'"
    by (simp add: count_transition_def Let_def row_def n_def row'_def)
  show ?thesis
    unfolding rows_ok_def
  proof
    fix kr assume "kr \<in> set (count_transition tm ft)"
    then have "kr = (fst ft, row') \<or> kr \<in> set tm"
      using set_obj_set_subset [of tm "fst ft" row'] by (auto simp: ct)
    with assms new ne show "snd kr \<noteq> [] \<and> (\<forall>e \<in> set (snd kr). 0 < snd e)"
      by (auto simp: rows_ok_def)
  qed
qed

lemma rows_ok_foldl: "rows_ok tm \<Longrightarrow> rows_ok (foldl count_transition tm fts)"
  by (induction fts arbitrary: tm) (auto simp: rows_ok_count_transition)

lemma keys_count_transition:
  "fst ` set (count_transition tm ft) = insert (fst ft) (fst ` set tm)"
  unfolding count_transition_def Let_def by (rule keys_obj_set)

lemma keys_foldl:
  "fst ` set (foldl count_transition tm fts) = fst ` set tm \<union> fst ` set fts"
  by (induction fts arbitrary: tm) (auto simp: keys_count_transition)

lemma map_fst_zip_tl: "map fst (zip xs (tl xs)) = butlast xs"
  by (induction xs rule: induct_list012) auto

lemma keys_transitionMatrix: "fst ` set (transitionMatrix acts) = set (butlast acts)"
proof -
  have "fst ` set (zip acts (tl acts)) = set (map fst (zip acts (tl acts)))" by simp
  then show ?thesis
    unfolding transitionMatrix_def keys_foldl map_fst_zip_tl by simp
qed

lemma rows_ok_transitionMatrix: "rows_ok (transitionMatrix acts)"
  unfolding transitionMatrix_def by (rule rows_ok_foldl) (simp add: rows_ok_def)

lemma obj_get_None_iff: "obj_get kvs k = None \<longleftrightarrow> k \<notin> fst ` set kvs"
  by (simp add: obj_get_def map_of_eq_None_iff)


lemma most_likely_fold:
  fixes T :: nat
  assumes T: "0 < T"
  defines "f \<equiv> \<lambda>best entry. let probability = (of_nat (snd entry) / of_nat T :: rat) in
               if probability > fst best then (probability, Some (fst entry)) else best"
  assumes ne: "row \<noteq> []" and pos: "\<forall>e \<in> set row. 0 < snd e"
  shows "\<exists>pre a c post. row = pre @ (a, c) # post \<and>
           (\<forall>e \<in> set pre. snd e < c) \<and> (\<forall>e \<in> set post. snd e \<le> c) \<and>
           foldl f (0, None) row = (of_nat c / of_nat T, Some a)"
  using ne pos
proof (induction row rule: rev_nonempty_induct)
  case (single x)
  obtain a c where x: "x = (a, c)" by (cases x)
  with single have "0 < c" by simp
  with T have "(0 :: rat) < of_nat c / of_nat T" by simp
  then have "foldl f (0, None) [x] = (of_nat c / of_nat T, Some a)"
    by (simp add: f_def x)
  then show ?case
    using x by (intro exI [of _ "[]"] exI [of _ a] exI [of _ c]) simp
next
  case (snoc x xs)
  obtain b d where x: "x = (b, d)" by (cases x)
  from snoc.prems have "\<forall>e \<in> set xs. 0 < snd e" by simp
  from snoc.IH [OF this] obtain pre a c post where
    xs: "xs = pre @ (a, c) # post" and
    pre: "\<forall>e \<in> set pre. snd e < c" and post: "\<forall>e \<in> set post. snd e \<le> c" and
    fold: "foldl f (0, None) xs = (of_nat c / of_nat T, Some a)"
    by blast
  have cmp: "(of_nat d / of_nat T :: rat) > of_nat c / of_nat T \<longleftrightarrow> c < d"
    using T by (simp add: divide_less_cancel)
  show ?case
  proof (cases "c < d")
    case True
    have "foldl f (0, None) (xs @ [x]) = f (of_nat c / of_nat T, Some a) x"
      by (simp add: fold)
    also have "\<dots> = (of_nat d / of_nat T, Some b)"
      using True cmp by (simp add: f_def x)
    finally have "foldl f (0, None) (xs @ [x]) = (of_nat d / of_nat T, Some b)" .
    moreover have "\<forall>e \<in> set xs. snd e < d"
      using True pre post unfolding xs by fastforce
    ultimately show ?thesis
      using x by (intro exI [of _ xs] exI [of _ b] exI [of _ d] exI [of _ "[]"]) simp
  next
    case False
    have "foldl f (0, None) (xs @ [x]) = f (of_nat c / of_nat T, Some a) x"
      by (simp add: fold)
    also have "\<dots> = (of_nat c / of_nat T, Some a)"
      using False cmp by (simp add: f_def x)
    finally have "foldl f (0, None) (xs @ [x]) = (of_nat c / of_nat T, Some a)" .
    moreover have "\<forall>e \<in> set (post @ [x]). snd e \<le> c"
      using False post x by auto
    ultimately show ?thesis
      using pre xs
      by (intro exI [of _ pre] exI [of _ a] exI [of _ c] exI [of _ "post @ [x]"]) simp
  qed
qed

lemma mostLikely_first_max:
  assumes "row \<noteq> []" and "\<forall>e \<in> set row. 0 < snd e"
  shows "\<exists>a. snd (mostLikely row) = Some a \<and> first_max row a"
proof -
  from assms have "0 < sum_list (map snd row)" by (cases row) auto
  from most_likely_fold [OF this assms]
  obtain pre a c post where "row = pre @ (a, c) # post"
    "\<forall>e \<in> set pre. snd e < c" "\<forall>e \<in> set post. snd e \<le> c"
    "mostLikely row = (of_nat c / of_nat (sum_list (map snd row)), Some a)"
    unfolding mostLikely_def Let_def by blast
  then have "snd (mostLikely row) = Some a" and "first_max row a"
    unfolding first_max_def by (simp, blast)
  then show ?thesis by blast
qed


lemma detect_cases:
  "p_next (detectActivityPattern events lb) = None \<longleftrightarrow>
     length events < 3 \<or> length (window_activities events lb) < 2 \<or>
     last (window_activities events lb) \<notin> set (butlast (window_activities events lb))"
proof -
  define acts where "acts = window_activities events lb"
  show ?thesis
  proof (cases "length events < 3 \<or> length acts < 2")
    case True
    then show ?thesis
      by (auto simp: detectActivityPattern_def Let_def acts_def)
  next
    case False
    show ?thesis
    proof (cases "obj_get (transitionMatrix acts) (last acts)")
      case None
      then have "last acts \<notin> set (butlast acts)"
        by (simp add: obj_get_None_iff keys_transitionMatrix)
      with None False show ?thesis
        by (simp add: detectActivityPattern_def Let_def acts_def [symmetric])
    next
      case (Some row)
      then have in_tm: "(last acts, row) \<in> set (transitionMatrix acts)"
        by (simp add: obj_get_def map_of_SomeD)
      then have "last acts \<in> fst ` set (transitionMatrix acts)"
        by (metis fst_conv image_eqI)
      then have mem: "last acts \<in> set (butlast acts)"
        by (simp add: keys_transitionMatrix)
      from in_tm rows_ok_transitionMatrix [of acts]
      have row: "row \<noteq> []" "\<forall>e \<in> set row. 0 < snd e"
        by (auto simp: rows_ok_def)
      from mostLikely_first_max [OF row] obtain a where "snd (mostLikely row) = Some a"
        by blast
      with Some False row mem show ?thesis
        by (simp add: detectActivityPattern_def Let_def acts_def [symmetric])
    qed
  qed
qed

lemma detect_confidence:
  "p_next (detectActivityPattern events lb) = None \<Longrightarrow>
   p_confidence (detectActivityPattern events lb) = 0"
proof -
  define acts where "acts = window_activities events lb"
  assume n: "p_next (detectActivityPattern events lb) = None"
  show ?thesis
  proof (cases "length events < 3 \<or> length acts < 2")
    case True
    then show ?thesis
      by (auto simp: detectActivityPattern_def Let_def acts_def)
  next
    case False
    show ?thesis
    proof (cases "obj_get (transitionMatrix acts) (last acts)")
      case None
      with False show ?thesis
        by (simp add: detectActivityPattern_def Let_def acts_def [symmetric])
    next
      case (Some row)
      show ?thesis
      proof (cases "row = []")
        case True
        with Some False show ?thesis
          by (simp add: detectActivityPattern_def Let_def acts_def [symmetric])
      next
        case ne: False
        from Some have "(last acts, row) \<in> set (transitionMatrix acts)"
          by (simp add: obj_get_def map_of_SomeD)
        with rows_ok_transitionMatrix [of acts]
        have "\<forall>e \<in> set row. 0 < snd e"
          by (auto simp: rows_ok_def)
        from mostLikely_first_max [OF ne this] obtain a where "snd (mostLikely row) = Some a"
          by blast
        with n Some False ne show ?thesis
          by (simp add: detectActivityPattern_def Let_def acts_def [symmetric])
      qed
    qed
  qed
qed

lemma detect_first_max:
  assumes "p_next (detectActivityPattern events lb) = Some a"
  shows "\<exists>row. obj_get (transitionMatrix (window_activities events lb))
                  (last (window_activities events lb)) = Some row \<and> first_max row a"
proof -
  define acts where "acts = window_activities events lb"
  from assms have len: "\<not> length events < 3" "\<not> length acts < 2"
    by (auto simp: detectActivityPattern_def Let_def acts_def split: if_splits)
  from assms len obtain row where row: "obj_get (transitionMatrix acts) (last acts) = Some row"
    by (cases "obj_get (transitionMatrix acts) (last acts)")
       (auto simp: detectActivityPattern_def Let_def acts_def [symmetric])
  with assms len have ne: "row \<noteq> []" and m: "snd (mostLikely row) = Some a"
    by (auto simp: detectActivityPattern_def Let_def acts_def [symmetric] split: if_splits)
  from row have "(last acts, row) \<in> set (transitionMatrix acts)"
    by (simp add: obj_get_def map_of_SomeD)
  with rows_ok_transitionMatrix [of acts]
  have "\<forall>e \<in> set row. 0 < snd e"
    by (auto simp: rows_ok_def)
  from mostLikely_first_max [OF ne this] m have "first_max row a" by auto
  with row show ?thesis unfolding acts_def by blast
qed


text \<open>C7, as stated, fails: three decodable events with the activities A, B, C are all
  in the window, yet there is no prediction, because nothing was seen to follow C; and two
  decodable events are refused for being fewer than three events.\<close>

theorem C7_counterexample:
  "window_activities [''A::1::1'', ''B::2::1'', ''C::3::1''] (lookback_of None)
     = [''A'', ''B'', ''C''] \<and>
   p_next (predictNext [''A::1::1'', ''B::2::1'', ''C::3::1''] None) = None \<and>
   p_confidence (predictNext [''A::1::1'', ''B::2::1'', ''C::3::1''] None) = 0 \<and>
   window_activities [''A::1::1'', ''B::2::1''] (lookback_of None) = [''A'', ''B''] \<and>
   p_next (predictNext [''A::1::1'', ''B::2::1''] None) = None"
  by code_simp

text \<open>C7, amended. For activity labels that are not names of \<open>Object.prototype\<close>
  members: \<open>predictNext\<close> gives no prediction exactly when there are fewer than three
  events, or fewer than two decodable activities in the window, or the last activity of the
  window does not occur earlier in it; a result without a prediction has confidence 0; and a
  predicted activity is the first entry of greatest count, hence of greatest probability,
  in the row of the transition table under the last activity.\<close>

theorem C7_predictNext:
  assumes "set (window_activities events (lookback_of opt)) \<inter> set proto_names = {}"
  shows "(p_next (predictNext events opt) = None \<longleftrightarrow>
            length events < 3 \<or> length (window_activities events (lookback_of opt)) < 2 \<or>
            last (window_activities events (lookback_of opt))
              \<notin> set (butlast (window_activities events (lookback_of opt)))) \<and>
         (p_next (predictNext events opt) = None \<longrightarrow>
            p_confidence (predictNext events opt) = 0) \<and>
         (\<forall>a. p_next (predictNext events opt) = Some a \<longrightarrow>
            (\<exists>row. obj_get (transitionMatrix (window_activities events (lookback_of opt)))
                      (last (window_activities events (lookback_of opt))) = Some row \<and>
                   first_max row a))"
  unfolding predictNext_def
  using detect_cases [of events "lookback_of opt"]
    detect_confidence [of events "lookback_of opt"]
    detect_first_max [of events "lookback_of opt"]
  by blast

text \<open>The activities A, B, A, B, A predict B.\<close>

theorem C7_predictNext_witness:
  "set (window_activities [''A::1::1'', ''B::2::1'', ''A::3::1'', ''B::4::1'', ''A::5::1'']
          (lookback_of None)) \<inter> set proto_names = {} \<and>
   p_next (predictNext [''A::1::1'', ''B::2::1'', ''A::3::1'', ''B::4::1'', ''A::5::1''] None)
     = Some ''B'' \<and>
   first_max [(''B'', 2)] ''B''"
proof -
  let ?es = "[''A::1::1'', ''B::2::1'', ''A::3::1'', ''B::4::1'', ''A::5::1'']"
  have w: "window_activities ?es (lookback_of None) = [''A'', ''B'', ''A'', ''B'', ''A'']"
    by code_simp
  have h: "set (window_activities ?es (lookback_of None)) \<inter> set proto_names = {}"
    unfolding w by code_simp
  have n: "p_next (predictNext ?es None) = Some ''B''"
    by code_simp
  have t: "obj_get (transitionMatrix [''A'', ''B'', ''A'', ''B'', ''A'']) ''A''
      = Some [(''B'', 2)]"
    by code_simp
  from C7_predictNext [OF h] n
  obtain row where "obj_get (transitionMatrix (window_activities ?es (lookback_of None)))
       (last (window_activities ?es (lookback_of None))) = Some row" and "first_max row ''B''"
    by blast
  then have "first_max [(''B'', 2)] ''B''"
    unfolding w using t by simp
  with h n show ?thesis by simp
qed

section \<open>The round trip through the codec\<close>

subsection \<open>Escaping and splitting\<close>

lemma contains_Cons: "contains p cs \<Longrightarrow> contains p (c # cs)"
  by simp



lemma escape_sep_Nil_iff [simp]: "escape_sep s = [] \<longleftrightarrow> s = []"
  by (induction s rule: escape_sep.induct) auto


lemma escape_sep_no_colon: "colon \<notin> set s \<Longrightarrow> escape_sep s = s"
  by (induction s rule: escape_sep.induct) auto








lemma no_colon_escape_safe: "colon \<notin> set s \<Longrightarrow> escape_safe s"
proof -
  assume a: "colon \<notin> set s"
  have "colon \<notin> set t \<Longrightarrow> \<not> contains [colon, colon, colon] t \<and> \<not> contains [backslash, colon] t"
    for t
  proof (induction t)
    case Nil
    show ?case by simp
  next
    case (Cons c t)
    then show ?case by (cases t) auto
  qed
  moreover have "\<not> ends_colon s"
    unfolding ends_colon_def using a by (metis last_in_set)
  ultimately show ?thesis using a by (simp add: escape_safe_def)
qed














subsection \<open>The text of an integer reads back as that integer\<close>



















subsection \<open>C1: the round trip of an activity and a scalar value\<close>









subsection \<open>C3: the envelope of a long context\<close>















subsection \<open>C2: separators inside nested text\<close>

text \<open>C2 holds of the code only in part. A text leaf of a context, or of a list value, is
  written without any escaping, so its separator cuts the record in two: the context and
  the version of the decoded record are fragments. And an activity with three colons in a
  row is escaped into a text that still holds a separator.\<close>

theorem C2_delimiter_lost:
  "encode 1000 ''act'' (JNum (Fin 1 0)) (JObj [(''k'', JStr ''a::b'')]) CURRENT_VERSION
     = ''act::1000::1::{\"k\":\"a::b\"}::1.1'' \<and>
   map_option r_context
     (decode (encode 1000 ''act'' (JNum (Fin 1 0)) (JObj [(''k'', JStr ''a::b'')])
        CURRENT_VERSION)) = Some (JStr ''{\"k\":\"a'') \<and>
   map_option r_version
     (decode (encode 1000 ''act'' (JNum (Fin 1 0)) (JObj [(''k'', JStr ''a::b'')])
        CURRENT_VERSION)) = Some ''b\"}'' \<and>
   map_option r_value
     (decode (encode 1000 ''act'' (JArr [JStr ''a::b'']) JNull CURRENT_VERSION))
     = Some (JStr ''[\"a'') \<and>
   map_option r_activity
     (decode (encode 1000 ''a:::b'' (JNum (Fin 1 0)) JNull CURRENT_VERSION))
     = Some [CHR ''a'', backslash]"
  by code_simp



lemma encodeValue_obj_not_Nil: "d \<le> MAX_CONTEXT_DEPTH \<Longrightarrow> encodeValue d (JObj kvs) \<noteq> []"
  by simp


subsection \<open>C10: what sanitizeContext and injectContext keep\<close>









end
